theory Spec2Isabelle
  imports Main "HOL-Library.AList"
begin

section \<open>JavaScript values used by the bot\<close>

text \<open>
  Telegram identities and millisecond timestamps are JavaScript numbers that hold
  integers far below \<open>2^53\<close>; they are modelled as \<open>int\<close>. A value that may also be
  \<open>NaN\<close> (the result of \<open>Number(...)\<close>) is a \<open>jsnum\<close>, with \<open>None\<close> for \<open>NaN\<close>.
  A record field that may be \<open>null\<close> or missing is an \<open>int option\<close>, with \<open>None\<close> for
  \<open>null\<close>/\<open>undefined\<close>.
\<close>

type_synonym jsnum = "int option"

text \<open>Truthiness of a number: \<open>null\<close>, \<open>undefined\<close>, \<open>NaN\<close> and \<open>0\<close> are falsy.\<close>

definition truthy :: "int option \<Rightarrow> bool" where
  "truthy v = (case v of None \<Rightarrow> False | Some n \<Rightarrow> n \<noteq> 0)"

text \<open>\<open>v || 0\<close> on a number field.\<close>

definition or0 :: "int option \<Rightarrow> int" where
  "or0 v = (case v of None \<Rightarrow> 0 | Some n \<Rightarrow> n)"

text \<open>\<open>a !== b\<close> on numbers: \<open>NaN\<close> differs from everything, itself included.\<close>

definition strict_neq :: "jsnum \<Rightarrow> jsnum \<Rightarrow> bool" where
  "strict_neq a b = (case (a, b) of (Some x, Some y) \<Rightarrow> x \<noteq> y | _ \<Rightarrow> True)"

text \<open>Truthiness of a string read from the environment: unset and empty are falsy.\<close>

definition configured :: "string option \<Rightarrow> bool" where
  "configured v = (case v of None \<Rightarrow> False | Some s \<Rightarrow> s \<noteq> [])"

subsection \<open>Numbers to strings and back\<close>

definition digit_char :: "nat \<Rightarrow> char" where
  "digit_char d = ''0123456789'' ! d"

definition is_digit :: "char \<Rightarrow> bool" where
  "is_digit c = (48 \<le> (of_char c :: nat) \<and> (of_char c :: nat) \<le> 57)"

definition digit_val :: "char \<Rightarrow> int" where
  "digit_val c = int (of_char c) - 48"

fun digits :: "nat \<Rightarrow> string" where
  "digits n = (if n < 10 then [digit_char n] else digits (n div 10) @ [digit_char (n mod 10)])"

declare digits.simps [simp del]

text \<open>
  \<open>String(n)\<close>, also what a template literal \<open>`${n}`\<close> inserts: the decimal digits of
  an integer, with a leading minus sign when negative, and \<open>NaN\<close> for \<open>NaN\<close>.
\<close>

definition js_String :: "jsnum \<Rightarrow> string" where
  "js_String v =
     (case v of
        None \<Rightarrow> ''NaN''
      | Some n \<Rightarrow> if n < 0 then CHR ''-'' # digits (nat (- n)) else digits (nat n))"

text \<open>The ASCII white space and line terminators that \<open>Number\<close> strips on both sides.\<close>

definition is_ws :: "char \<Rightarrow> bool" where
  "is_ws c = (c = CHR 0x20 \<or> c = CHR 0x09 \<or> c = CHR 0x0A \<or> c = CHR 0x0B
              \<or> c = CHR 0x0C \<or> c = CHR 0x0D)"

definition trim :: "string \<Rightarrow> string" where
  "trim s = rev (dropWhile is_ws (rev (dropWhile is_ws s)))"

definition digits_val :: "string \<Rightarrow> int" where
  "digits_val s = foldl (\<lambda>a c. 10 * a + digit_val c) 0 s"

definition all_digits :: "string \<Rightarrow> bool" where
  "all_digits s = (s \<noteq> [] \<and> list_all is_digit s)"

text \<open>
  \<open>Number(s)\<close> on a string, for the signed decimal integers that identities are written
  in: the empty (or all-blank) string is \<open>0\<close>, an optional sign followed by decimal digits
  is that integer, and anything else is \<open>NaN\<close>. JavaScript also reads hexadecimal,
  fractional and exponent spellings and \<open>Infinity\<close>; no identity is rendered in them
  (\<open>js_String\<close> never produces one), and they are taken as \<open>NaN\<close> here.
\<close>

definition js_Number :: "string \<Rightarrow> jsnum" where
  "js_Number s =
     (case trim s of
        [] \<Rightarrow> Some 0
      | c # r \<Rightarrow>
          if c = CHR ''-'' \<and> all_digits r then Some (- digits_val r)
          else if c = CHR ''+'' \<and> all_digits r then Some (digits_val r)
          else if all_digits (c # r) then Some (digits_val (c # r))
          else None)"

subsection \<open>Callback payloads\<close>

text \<open>\<open>s.split(sep)\<close> with a one-character separator.\<close>

fun split_on :: "char \<Rightarrow> string \<Rightarrow> string list" where
  "split_on sep [] = [[]]"
| "split_on sep (c # cs) =
     (if c = sep then [] # split_on sep cs
      else (case split_on sep cs of
              [] \<Rightarrow> [[c]]
            | p # ps \<Rightarrow> (c # p) # ps))"

text \<open>Reading element \<open>i\<close> of an array: \<open>undefined\<close> (here \<open>None\<close>) out of range.\<close>

definition element :: "'a list \<Rightarrow> nat \<Rightarrow> 'a option" where
  "element xs i = (if i < length xs then Some (xs ! i) else None)"

definition buildCallback :: "string \<Rightarrow> jsnum \<Rightarrow> string" where
  "buildCallback action userId = action @ '':'' @ js_String userId"

text \<open>
  \<open>parseCallback\<close> destructures the first two pieces of \<open>data.split(':')\<close>; a missing
  second piece is \<open>undefined\<close>, and \<open>Number(undefined)\<close> is \<open>NaN\<close>.
\<close>

definition parseCallback :: "string \<Rightarrow> string option \<times> jsnum" where
  "parseCallback data =
     (let parts = split_on CHR '':'' data;
          action = element parts 0;
          userId = element parts 1
      in (action, case userId of None \<Rightarrow> None | Some s \<Rightarrow> js_Number s))"

text \<open>\<open>s.startsWith(p)\<close>, and \<open>s.replace(p, '')\<close>, which removes the first occurrence of \<open>p\<close>.\<close>

definition startsWith :: "string \<Rightarrow> string \<Rightarrow> bool" where
  "startsWith s p = (take (length p) s = p)"

fun remove_first :: "string \<Rightarrow> string \<Rightarrow> string" where
  "remove_first p [] = []"
| "remove_first p (c # cs) =
     (if startsWith (c # cs) p then drop (length p) (c # cs) else c # remove_first p cs)"

section \<open>Configuration and constants\<close>

record config =
  CHANNEL_ID :: "string option"
  CHANNEL_INVITE_LINK :: "string option"
  ADMIN_CHAT_ID :: jsnum

definition SUBSCRIPTION_DAYS :: int where
  "SUBSCRIPTION_DAYS = 30"

definition REFERRAL_BONUS_DAYS :: int where
  "REFERRAL_BONUS_DAYS = 5"

definition DAY_MS :: int where
  "DAY_MS = 24 * 60 * 60 * 1000"

section \<open>The ledger file\<close>

text \<open>
  One record per user, with the six fields \<open>ensureUser\<close> writes. A numeric field that
  is \<open>null\<close> or missing in the file is \<open>None\<close>; a missing \<open>firstPaymentDone\<close> is
  falsy and is read as \<open>False\<close>.
\<close>

record user =
  expiresAt :: "int option"
  referredBy :: "int option"
  referralsCount :: "int option"
  firstPaymentDone :: bool
  totalPaidCycles :: "int option"
  bonusDays :: "int option"

text \<open>
  \<open>db.users\<close> is an object whose property keys are the strings \<open>String(id)\<close>. It is
  kept as the list of its entries in insertion order, a key being written as the number
  it spells (\<open>js_Number (js_String v) = v\<close>, lemma \<open>js_Number_js_String\<close>);
  \<open>db.users[id]\<close> is \<open>map_of db id\<close>, and an assignment to it is \<open>AList.update\<close>,
  which keeps the place of a key already there and appends a new one.
\<close>

type_synonym db = "(jsnum \<times> user) list"

datatype error = IOError | TransportError

datatype link = Issued int | Static "string option"

datatype message =
    MsgReferralCredited
  | MsgNewReferral string int
  | MsgWelcome
  | MsgExpired
  | MsgNoAdmin
  | MsgProofReceived
  | MsgReview int "string option" string string
  | MsgApproved int link
  | MsgGuide
  | MsgRejected

datatype answer = PermissionDenied | AccessSent | PaymentRejected | ErrorOccurred

datatype status_note = Approved int | Rejected

text \<open>
  The calls to the Telegram client. Message texts are named by what they say;
  \<open>MsgReview\<close> carries the user identity, the text submitted (if any) and the callback
  data of its two buttons, \<open>MsgApproved\<close> the expiration that is shown and the invite.
\<close>

datatype tg_call =
    SendMessage jsnum message
  | Reply message
  | SendPhoto jsnum message
  | SendDocument jsnum message
  | CreateChatInviteLink string int nat
  | BanChatMember string jsnum
  | UnbanChatMember string jsnum
  | EditMessageCaption status_note
  | EditMessageText status_note
  | AnswerCbQuery answer bool

text \<open>
  What the handlers act on: the file \<open>db.json\<close> (\<open>None\<close> when it cannot be read or
  parsed), whether it can be written, the calls made to Telegram so far (oldest first),
  and whether the \<open>n\<close>-th call made succeeds.
\<close>

record world =
  disk :: "db option"
  writable :: bool
  calls :: "tg_call list"
  transport_ok :: "nat \<Rightarrow> bool"

definition tg :: "tg_call \<Rightarrow> world \<Rightarrow> bool \<times> world" where
  "tg c w = (transport_ok w (length (calls w)), w\<lparr>calls := calls w @ [c]\<rparr>)"

text \<open>A run of awaited calls: the first one that throws ends it.\<close>

fun tg_seq :: "tg_call list \<Rightarrow> world \<Rightarrow> (error + unit) \<times> world" where
  "tg_seq [] w = (Inr (), w)"
| "tg_seq (c # cs) w =
     (case tg c w of (ok, w') \<Rightarrow> if ok then tg_seq cs w' else (Inl TransportError, w'))"

text \<open>\<open>loadDb\<close> catches every error of reading and parsing and returns \<open>{ users: {} }\<close>.\<close>

definition loadDb :: "world \<Rightarrow> db" where
  "loadDb w = (case disk w of None \<Rightarrow> [] | Some d \<Rightarrow> d)"

text \<open>\<open>saveDb\<close> rewrites the whole file; \<open>writeFileSync\<close> throws when it cannot.\<close>

definition saveDb :: "db \<Rightarrow> world \<Rightarrow> error + world" where
  "saveDb d w = (if writable w then Inr (w\<lparr>disk := Some d\<rparr>) else Inl IOError)"

definition new_user :: user where
  "new_user = \<lparr>expiresAt = None, referredBy = None, referralsCount = Some 0,
               firstPaymentDone = False, totalPaidCycles = Some 0, bonusDays = Some 0\<rparr>"

text \<open>\<open>ensureUser\<close> returns the (possibly extended) object and the user's record.\<close>

definition ensureUser :: "db \<Rightarrow> jsnum \<Rightarrow> db \<times> user" where
  "ensureUser d userId =
     (case map_of d userId of
        None \<Rightarrow> (AList.update userId new_user d, new_user)
      | Some u \<Rightarrow> (d, u))"

section \<open>Subscriptions and referrals\<close>

text \<open>
  The test \<open>x.expiresAt && x.expiresAt > now\<close> followed by the two assignments: the
  new expiration after adding \<open>ms\<close> milliseconds.
\<close>

definition extended :: "int option \<Rightarrow> int \<Rightarrow> int \<Rightarrow> int" where
  "extended e now ms =
     (case e of
        None \<Rightarrow> now + ms
      | Some t \<Rightarrow> if t \<noteq> 0 \<and> t > now then t + ms else now + ms)"

definition grantSubscription :: "world \<Rightarrow> int \<Rightarrow> jsnum \<Rightarrow> int \<Rightarrow> (error + int) \<times> world" where
  "grantSubscription w now userId baseDays =
     (let d = loadDb w;
          (d1, u) = ensureUser d userId;
          bonus = or0 (bonusDays u);
          totalDays = baseDays + bonus;
          u1 = u\<lparr>bonusDays := Some 0\<rparr>;
          u2 = u1\<lparr>expiresAt := Some (extended (expiresAt u1) now (totalDays * DAY_MS))\<rparr>;
          u3 = u2\<lparr>totalPaidCycles := Some (or0 (totalPaidCycles u2) + 1)\<rparr>;
          d2 = AList.update userId u3 d1
      in case saveDb d2 w of
           Inl e \<Rightarrow> (Inl e, w)
         | Inr w' \<Rightarrow> (Inr (or0 (expiresAt u3)), w'))"

text \<open>
  \<open>refUser\<close> is looked up after \<open>firstPaymentDone\<close> has been set, in the same object, so
  a user recorded as their own referrer is credited on the record already marked.
\<close>

definition handleReferralOnFirstPayment :: "world \<Rightarrow> int \<Rightarrow> jsnum \<Rightarrow> (error + unit) \<times> world" where
  "handleReferralOnFirstPayment w now userId =
     (let d = loadDb w;
          (d1, u) = ensureUser d userId
      in if firstPaymentDone u then (Inr (), w)
         else
           let d2 = AList.update userId (u\<lparr>firstPaymentDone := True\<rparr>) d1
           in case (if truthy (referredBy u) then map_of d2 (referredBy u) else None) of
                Some refUser \<Rightarrow>
                  (let r1 = refUser\<lparr>referralsCount := Some (or0 (referralsCount refUser) + 1)\<rparr>;
                       extraMs = REFERRAL_BONUS_DAYS * DAY_MS;
                       r2 = r1\<lparr>expiresAt := Some (extended (expiresAt r1) now extraMs)\<rparr>;
                       d3 = AList.update (referredBy u) r2 d2
                   in case saveDb d3 w of
                        Inl e \<Rightarrow> (Inl e, w)
                      | Inr w' \<Rightarrow>
                          (Inr (), snd (tg (SendMessage (referredBy u) MsgReferralCredited) w')))
              | None \<Rightarrow>
                  (case saveDb d2 w of
                     Inl e \<Rightarrow> (Inl e, w)
                   | Inr w' \<Rightarrow> (Inr (), w')))"

definition createUniqueInviteLink ::
    "config \<Rightarrow> world \<Rightarrow> int \<Rightarrow> jsnum \<Rightarrow> int \<Rightarrow> link \<times> world" where
  "createUniqueInviteLink cfg w now userId expires =
     (case CHANNEL_ID cfg of
        None \<Rightarrow> (Static (CHANNEL_INVITE_LINK cfg), w)
      | Some chan \<Rightarrow>
          if chan = [] then (Static (CHANNEL_INVITE_LINK cfg), w)
          else
            let nowSec = now div 1000;
                expiresSec = expires div 1000;
                maxLifetimeSec = 24 * 60 * 60;
                expireDate = min expiresSec (nowSec + maxLifetimeSec)
            in case tg (CreateChatInviteLink chan expireDate 1) w of
                 (ok, w') \<Rightarrow>
                   if ok then (Issued expireDate, w')
                   else (Static (CHANNEL_INVITE_LINK cfg), w'))"

section \<open>The expiration sweep\<close>

text \<open>
  \<open>Object.entries\<close> lists the keys that are array indices (integers from \<open>0\<close> up to
  \<open>2^32 - 2\<close>) in ascending order first, then the other keys in insertion order.
\<close>

definition is_index :: "jsnum \<Rightarrow> bool" where
  "is_index k = (case k of None \<Rightarrow> False | Some n \<Rightarrow> 0 \<le> n \<and> n < 4294967295)"

definition object_entries :: "db \<Rightarrow> (jsnum \<times> user) list" where
  "object_entries d =
     sort_key (\<lambda>p. or0 (fst p)) (filter (\<lambda>p. is_index (fst p)) d)
       @ filter (\<lambda>p. \<not> is_index (fst p)) d"

text \<open>
  One pass of the loop body per entry. The state is the object being edited, the flag
  \<open>changed\<close> and the world; \<open>unbanChatMember\<close> is skipped when \<open>banChatMember\<close> throws,
  and no failure of a call leaves the loop.
\<close>

fun sweep_loop ::
    "string \<Rightarrow> int \<Rightarrow> (jsnum \<times> user) list \<Rightarrow> db \<times> bool \<times> world \<Rightarrow> db \<times> bool \<times> world" where
  "sweep_loop chan now [] s = s"
| "sweep_loop chan now ((userId, data) # rest) (d, changed, w) =
     (if \<not> truthy (expiresAt data) then sweep_loop chan now rest (d, changed, w)
      else if or0 (expiresAt data) \<le> now then
        (let (banned, w1) = tg (BanChatMember chan userId) w;
             w2 = (if banned then snd (tg (UnbanChatMember chan userId) w1) else w1);
             d' = AList.map_entry userId (\<lambda>u. u\<lparr>expiresAt := None\<rparr>) d;
             w3 = snd (tg (SendMessage userId MsgExpired) w2)
         in sweep_loop chan now rest (d', True, w3))
      else sweep_loop chan now rest (d, changed, w))"

definition checkExpirations :: "config \<Rightarrow> world \<Rightarrow> int \<Rightarrow> (error + unit) \<times> world" where
  "checkExpirations cfg w now =
     (case CHANNEL_ID cfg of
        None \<Rightarrow> (Inr (), w)
      | Some chan \<Rightarrow>
          if chan = [] then (Inr (), w)
          else
            (case sweep_loop chan now (object_entries (loadDb w)) (loadDb w, False, w) of
               (d, changed, w') \<Rightarrow>
                 if changed then
                   (case saveDb d w' of
                      Inl e \<Rightarrow> (Inl e, w')
                    | Inr w'' \<Rightarrow> (Inr (), w''))
                 else (Inr (), w')))"

section \<open>Event handlers\<close>

text \<open>
  \<open>/start\<close>: the link to a referrer is stored only for a payload that starts with
  \<open>ref_\<close> and whose remainder reads as a truthy number different from the user, and
  only on a record without a referrer; only then is the file written. The welcome
  reply follows unless the write failed.
\<close>

definition bot_start :: "world \<Rightarrow> int \<Rightarrow> string \<Rightarrow> string \<Rightarrow> (error + unit) \<times> world" where
  "bot_start w userId username payload =
     (let d = loadDb w;
          (d1, u) = ensureUser d (Some userId);
          linked =
            (if payload \<noteq> [] \<and> startsWith payload ''ref_'' then
               let refId = js_Number (remove_first ''ref_'' payload)
               in if truthy refId \<and> strict_neq refId (Some userId) then
                    if \<not> truthy (referredBy u) then
                      (case saveDb (AList.update (Some userId) (u\<lparr>referredBy := refId\<rparr>) d1) w of
                         Inl e \<Rightarrow> (Inl e, w)
                       | Inr w' \<Rightarrow>
                           (Inr (), snd (tg (SendMessage refId (MsgNewReferral username userId)) w')))
                    else (Inr (), w)
                  else (Inr (), w)
             else (Inr (), w))
      in case linked of
           (Inl e, w1) \<Rightarrow> (Inl e, w1)
         | (Inr _, w1) \<Rightarrow> tg_seq [Reply MsgWelcome] w1)"

text \<open>
  Receipt of a payment proof (\<open>bot.on(['photo', 'document', 'text'])\<close>): the message is
  forwarded to the administrator with the two decision buttons. \<open>Pass\<close> stands for
  \<open>next()\<close>, which hands the update to the handlers registered after this one.
\<close>

datatype content = Photo | Document | Text string

datatype outcome = Handled | Pass

definition is_text_command :: "content \<Rightarrow> bool" where
  "is_text_command c = (case c of Text t \<Rightarrow> t \<noteq> [] \<and> startsWith t ''/'' | _ \<Rightarrow> False)"

definition on_proof ::
    "config \<Rightarrow> world \<Rightarrow> int \<Rightarrow> bool \<Rightarrow> bool \<Rightarrow> content \<Rightarrow> (error + outcome) \<times> world" where
  "on_proof cfg w userId is_bot private c =
     (if is_bot then (Inr Handled, w)
      else if \<not> private then (Inr Pass, w)
      else if is_text_command c then (Inr Pass, w)
      else if \<not> truthy (ADMIN_CHAT_ID cfg) then
        (case tg_seq [Reply MsgNoAdmin] w of
           (Inl e, w') \<Rightarrow> (Inl e, w')
         | (Inr _, w') \<Rightarrow> (Inr Handled, w'))
      else
        let review = (\<lambda>t. MsgReview userId t (buildCallback ''approve'' (Some userId))
                                            (buildCallback ''reject'' (Some userId)));
            forward =
              (case c of
                 Photo \<Rightarrow> [SendPhoto (ADMIN_CHAT_ID cfg) (review None)]
               | Document \<Rightarrow> [SendDocument (ADMIN_CHAT_ID cfg) (review None)]
               | Text t \<Rightarrow> if t \<noteq> [] then [SendMessage (ADMIN_CHAT_ID cfg) (review (Some t))] else [])
        in case tg_seq (Reply MsgProofReceived # forward) w of
             (Inl e, w') \<Rightarrow> (Inl e, w')
           | (Inr _, w') \<Rightarrow> (Inr Handled, w'))"

text \<open>
  The administrator's message that carries the buttons: \<open>appendStatus\<close> edits the caption
  of a photo or document, the text of a text message, and nothing otherwise.
\<close>

datatype review = Media | Textual | Neither

definition appendStatus :: "review \<Rightarrow> status_note \<Rightarrow> tg_call list" where
  "appendStatus m note =
     (case m of
        Media \<Rightarrow> [EditMessageCaption note]
      | Textual \<Rightarrow> [EditMessageText note]
      | Neither \<Rightarrow> [])"

text \<open>
  The body of the \<open>try\<close> block of the \<open>callback_query\<close> handler. \<open>t1\<close>, \<open>t2\<close> and \<open>t3\<close>
  are the clock readings of the grant, of the referral handler and of the invite.
\<close>

definition decide ::
    "config \<Rightarrow> world \<Rightarrow> int \<Rightarrow> string \<Rightarrow> review \<Rightarrow> int \<Rightarrow> int \<Rightarrow> int \<Rightarrow> (error + unit) \<times> world" where
  "decide cfg w fromAdminId data m t1 t2 t3 =
     (if strict_neq (Some fromAdminId) (ADMIN_CHAT_ID cfg) then
        tg_seq [AnswerCbQuery PermissionDenied True] w
      else
        case parseCallback data of
          (action, userId) \<Rightarrow>
            if action = Some ''approve'' then
              (case grantSubscription w t1 userId SUBSCRIPTION_DAYS of
                 (Inl e, w1) \<Rightarrow> (Inl e, w1)
               | (Inr expires, w1) \<Rightarrow>
                   (case handleReferralOnFirstPayment w1 t2 userId of
                      (Inl e, w2) \<Rightarrow> (Inl e, w2)
                    | (Inr _, w2) \<Rightarrow>
                        (case createUniqueInviteLink cfg w2 t3 userId expires of
                           (inviteLink, w3) \<Rightarrow>
                             tg_seq ([SendMessage userId (MsgApproved expires inviteLink),
                                      SendMessage userId MsgGuide]
                                     @ appendStatus m (Approved expires)
                                     @ [AnswerCbQuery AccessSent False]) w3)))
            else if action = Some ''reject'' then
              tg_seq ([SendMessage userId MsgRejected]
                      @ appendStatus m Rejected
                      @ [AnswerCbQuery PaymentRejected False]) w
            else (Inr (), w))"

text \<open>
  The handler itself: an error of the body is logged and answered with a generic alert,
  whose own failure is swallowed.
\<close>

definition callback_query ::
    "config \<Rightarrow> world \<Rightarrow> int \<Rightarrow> string \<Rightarrow> review \<Rightarrow> int \<Rightarrow> int \<Rightarrow> int \<Rightarrow> world" where
  "callback_query cfg w fromAdminId data m t1 t2 t3 =
     (case decide cfg w fromAdminId data m t1 t2 t3 of
        (Inr _, w') \<Rightarrow> w'
      | (Inl e, w') \<Rightarrow> snd (tg (AnswerCbQuery ErrorOccurred True) w'))"

text \<open>
  The events that reach a handler touching the ledger file, each with the clock
  readings its handler takes, and the world after the handler has run (an error that
  leaves a handler is logged by the framework). The commands \<open>/whoami\<close>, \<open>/status\<close>,
  \<open>/referidos\<close>, \<open>/admin\<close> and \<open>/pagar\<close> contain no call of \<open>saveDb\<close>.
\<close>

datatype event =
    Start int string string
  | Proof int bool bool content
  | Decision int string review int int int
  | Tick int

fun step :: "config \<Rightarrow> world \<Rightarrow> event \<Rightarrow> world" where
  "step cfg w (Start userId username payload) = snd (bot_start w userId username payload)"
| "step cfg w (Proof userId is_bot private c) = snd (on_proof cfg w userId is_bot private c)"
| "step cfg w (Decision fromAdminId data m t1 t2 t3) =
     callback_query cfg w fromAdminId data m t1 t2 t3"
| "step cfg w (Tick now) = snd (checkExpirations cfg w now)"

definition run :: "config \<Rightarrow> world \<Rightarrow> event list \<Rightarrow> world" where
  "run cfg w evs = foldl (step cfg) w evs"


text \<open>The decision events whose sender is not the configured administrator.\<close>

fun from_non_admin :: "config \<Rightarrow> event \<Rightarrow> bool" where
  "from_non_admin cfg (Decision fromAdminId data m t1 t2 t3) =
     strict_neq (Some fromAdminId) (ADMIN_CHAT_ID cfg)"
| "from_non_admin cfg (Start userId username payload) = False"
| "from_non_admin cfg (Proof userId is_bot private c) = False"
| "from_non_admin cfg (Tick now) = False"

section \<open>Example states\<close>

text \<open>
  A small ledger used to run the handlers on concrete inputs: user \<open>7\<close> holds a
  subscription that ends at time \<open>5000\<close> and three bonus days; user \<open>8\<close> was referred by
  \<open>7\<close> and has not paid yet.
\<close>

definition all_ok :: "nat \<Rightarrow> bool" where
  "all_ok n = True"

definition alice :: user where
  "alice = \<lparr>expiresAt = Some 5000, referredBy = None, referralsCount = Some 2,
            firstPaymentDone = True, totalPaidCycles = Some 1, bonusDays = Some 3\<rparr>"

definition bruno :: user where
  "bruno = \<lparr>expiresAt = None, referredBy = Some 7, referralsCount = Some 0,
            firstPaymentDone = False, totalPaidCycles = Some 0, bonusDays = Some 0\<rparr>"

definition w_ex :: world where
  "w_ex = \<lparr>disk = Some [(Some 7, alice), (Some 8, bruno)], writable = True, calls = [],
           transport_ok = all_ok\<rparr>"

text \<open>
  A configuration with a channel, one with the static invite only, a ledger file that
  cannot be read, and one that cannot be written.
\<close>

definition cfg_ex :: config where
  "cfg_ex = \<lparr>CHANNEL_ID = Some ''@vip'', CHANNEL_INVITE_LINK = Some ''https://t.me/+static'',
             ADMIN_CHAT_ID = Some 99\<rparr>"

definition cfg_link_only :: config where
  "cfg_link_only = \<lparr>CHANNEL_ID = None, CHANNEL_INVITE_LINK = Some ''https://t.me/+static'',
                    ADMIN_CHAT_ID = Some 99\<rparr>"

definition w_unreadable :: world where
  "w_unreadable = \<lparr>disk = None, writable = True, calls = [], transport_ok = all_ok\<rparr>"

definition w_readonly :: world where
  "w_readonly = \<lparr>disk = Some [(Some 7, alice), (Some 8, bruno)], writable = False, calls = [],
                 transport_ok = all_ok\<rparr>"

definition w_empty :: world where
  "w_empty = \<lparr>disk = Some [], writable = True, calls = [], transport_ok = all_ok\<rparr>"

section \<open>Round trip of the callback payload\<close>

lemma below_ten:
  "d < (10::nat) \<Longrightarrow>
     d = 0 \<or> d = 1 \<or> d = 2 \<or> d = 3 \<or> d = 4 \<or> d = 5 \<or> d = 6 \<or> d = 7 \<or> d = 8 \<or> d = 9"
  by arith

lemma of_char_digit_char: "d < 10 \<Longrightarrow> (of_char (digit_char d) :: nat) = 48 + d"
  by (drule below_ten) (auto simp: digit_char_def)

lemma digit_val_digit_char: "d < 10 \<Longrightarrow> digit_val (digit_char d) = int d"
  by (simp add: digit_val_def of_char_digit_char)

lemma is_digit_digit_char: "d < 10 \<Longrightarrow> is_digit (digit_char d)"
  by (simp add: is_digit_def of_char_digit_char)

lemma digits_nonempty: "digits n \<noteq> []"
  by (subst digits.simps) simp

lemma digits_all_digit: "list_all is_digit (digits n)"
proof (induction n rule: digits.induct)
  case (1 n)
  show ?case
  proof (cases "n < 10")
    case True
    then show ?thesis
      by (subst digits.simps) (simp add: is_digit_digit_char)
  next
    case False
    with "1" show ?thesis
      by (subst digits.simps) (simp add: is_digit_digit_char)
  qed
qed

lemma all_digits_digits: "all_digits (digits n)"
  by (simp add: all_digits_def digits_nonempty digits_all_digit)

lemma digits_val_snoc: "digits_val (s @ [c]) = 10 * digits_val s + digit_val c"
  by (simp add: digits_val_def)

lemma digits_val_digits: "digits_val (digits n) = int n"
proof (induction n rule: digits.induct)
  case (1 n)
  show ?case
  proof (cases "n < 10")
    case True
    then show ?thesis
      by (subst digits.simps) (simp add: digits_val_def digit_val_digit_char)
  next
    case False
    with "1" have "digits_val (digits (n div 10)) = int (n div 10)"
      by simp
    moreover have "int n = 10 * int (n div 10) + int (n mod 10)"
      by presburger
    ultimately show ?thesis
      using False by (subst digits.simps) (simp add: digits_val_snoc digit_val_digit_char)
  qed
qed

lemma is_digit_not_ws: "is_digit c \<Longrightarrow> \<not> is_ws c"
  by (auto simp: is_digit_def is_ws_def)

lemma is_digit_not_colon: "is_digit c \<Longrightarrow> c \<noteq> CHR '':''"
  by (auto simp: is_digit_def)

lemma is_digit_not_sign: "is_digit c \<Longrightarrow> c \<noteq> CHR ''-'' \<and> c \<noteq> CHR ''+''"
  by (auto simp: is_digit_def)

lemma trim_id:
  assumes "s \<noteq> []" and "\<not> is_ws (hd s)" and "\<not> is_ws (last s)"
  shows "trim s = s"
proof -
  from assms(1,2) have a: "dropWhile is_ws s = s"
    by (cases s) simp_all
  from assms(1,3) have "dropWhile is_ws (rev s) = rev s"
    by (cases "rev s") (simp_all add: last_rev [symmetric] hd_rev)
  with a show ?thesis
    by (simp add: trim_def)
qed

lemma all_digits_ends: "all_digits s \<Longrightarrow> is_digit (hd s) \<and> is_digit (last s)"
  by (cases s) (auto simp: all_digits_def list_all_iff)

lemma js_Number_digits: "js_Number (digits n) = Some (int n)"
proof -
  have ad: "all_digits (digits n)" by (rule all_digits_digits)
  then have "trim (digits n) = digits n"
    using all_digits_ends [OF ad] by (intro trim_id) (auto simp: all_digits_def is_digit_not_ws)
  moreover obtain c r where cr: "digits n = c # r"
    using digits_nonempty [of n] by (cases "digits n") auto
  moreover have "is_digit c"
    using all_digits_ends [OF ad] cr by simp
  ultimately show ?thesis
    using ad is_digit_not_sign [of c] digits_val_digits [of n] by (simp add: js_Number_def)
qed

lemma js_Number_minus_digits: "js_Number (CHR ''-'' # digits n) = Some (- int n)"
proof -
  have ad: "all_digits (digits n)" by (rule all_digits_digits)
  have "\<not> is_ws (CHR ''-'')" by (simp add: is_ws_def)
  moreover have "\<not> is_ws (last (CHR ''-'' # digits n))"
    using all_digits_ends [OF ad] digits_nonempty [of n] by (simp add: is_digit_not_ws)
  ultimately have "trim (CHR ''-'' # digits n) = CHR ''-'' # digits n"
    by (intro trim_id) simp_all
  then show ?thesis
    using ad by (simp add: js_Number_def digits_val_digits)
qed

lemma js_Number_NaN: "js_Number ''NaN'' = None"
  by (simp add: js_Number_def trim_def is_ws_def all_digits_def is_digit_def)

lemma js_Number_js_String: "js_Number (js_String v) = v"
proof (cases v)
  case None
  then show ?thesis by (simp add: js_String_def js_Number_NaN)
next
  case (Some n)
  then show ?thesis
    by (simp add: js_String_def js_Number_digits js_Number_minus_digits)
qed

lemma split_on_no_sep: "sep \<notin> set s \<Longrightarrow> split_on sep s = [s]"
  by (induction s) auto

lemma split_on_append:
  "sep \<notin> set a \<Longrightarrow> split_on sep (a @ sep # b) = a # split_on sep b"
  by (induction a) auto

lemma js_String_no_colon: "CHR '':'' \<notin> set (js_String v)"
proof (cases v)
  case None
  then show ?thesis by (simp add: js_String_def)
next
  case (Some n)
  have "CHR '':'' \<notin> set (digits m)" for m
    using digits_all_digit [of m] is_digit_not_colon by (auto simp: list_all_iff)
  with Some show ?thesis
    by (simp add: js_String_def)
qed

text \<open>
  C10. For every action string without a colon and every numeric user identity,
  \<open>parseCallback (buildCallback action userId)\<close> gives back exactly the action and the
  user identity that were packed into the button.
\<close>

theorem C10_callback_round_trip:
  assumes "CHR '':'' \<notin> set action"
  shows "parseCallback (buildCallback action userId) = (Some action, userId)"
proof -
  have "split_on CHR '':'' (buildCallback action userId) = [action, js_String userId]"
    using assms by (simp add: buildCallback_def split_on_append split_on_no_sep js_String_no_colon)
  then show ?thesis
    by (simp add: parseCallback_def element_def js_Number_js_String)
qed

theorem C10_callback_round_trip_witness:
  "CHR '':'' \<notin> set ''approve''
   \<and> buildCallback ''approve'' (Some 5551234) = ''approve:5551234''
   \<and> parseCallback ''approve:5551234'' = (Some ''approve'', Some 5551234)"
proof -
  have h: "CHR '':'' \<notin> set ''approve''" by simp
  have b: "buildCallback ''approve'' (Some 5551234) = ''approve:5551234''"
    by (simp add: buildCallback_def js_String_def digits.simps digit_char_def)
  show ?thesis
    using h b C10_callback_round_trip [OF h, of "Some 5551234"] by simp
qed

section \<open>Ledger lookups\<close>

lemmas ex_defs = w_ex_def alice_def bruno_def all_ok_def cfg_ex_def cfg_link_only_def
  w_unreadable_def w_readonly_def w_empty_def

lemma extended_claim:
  "0 \<le> now \<Longrightarrow>
   extended e now ms = (case e of None \<Rightarrow> now + ms | Some t \<Rightarrow> if t > now then t + ms else now + ms)"
  by (auto simp: extended_def split: option.splits)

lemma map_of_update: "map_of (AList.update k v d) = (map_of d)(k \<mapsto> v)"
  by (rule update_conv')

lemma map_of_ensureUser:
  "map_of (fst (ensureUser d userId)) = (map_of d)(userId \<mapsto> snd (ensureUser d userId))"
  by (auto simp: ensureUser_def map_of_update split: option.splits)

lemma ensureUser_present: "map_of d userId = Some u \<Longrightarrow> ensureUser d userId = (d, u)"
  by (simp add: ensureUser_def)


lemma referral_done:
  "firstPaymentDone (snd (ensureUser (loadDb w) userId)) \<Longrightarrow>
   handleReferralOnFirstPayment w now userId = (Inr (), w)"
  by (cases "ensureUser (loadDb w) userId") (simp add: handleReferralOnFirstPayment_def)

lemma referral_credit:
  assumes "writable w" and "map_of (loadDb w) userId = Some u" and "\<not> firstPaymentDone u"
    and "referredBy u = Some r" and "r \<noteq> 0"
    and "map_of (loadDb w) (Some r) = Some refUser"
  shows "handleReferralOnFirstPayment w now userId =
           (Inr (),
            w\<lparr>disk := Some (AList.update (Some r)
                 ((if Some r = userId then u\<lparr>firstPaymentDone := True\<rparr> else refUser)
                    \<lparr>referralsCount := Some (or0 (referralsCount refUser) + 1),
                     expiresAt := Some (extended (expiresAt refUser) now (REFERRAL_BONUS_DAYS * DAY_MS))\<rparr>)
                 (AList.update userId (u\<lparr>firstPaymentDone := True\<rparr>) (loadDb w))),
              calls := calls w @ [SendMessage (Some r) MsgReferralCredited]\<rparr>)"
  using assms
  by (auto simp: handleReferralOnFirstPayment_def Let_def ensureUser_present truthy_def
      map_of_update saveDb_def tg_def)

section \<open>The grant\<close>

text \<open>
  C1. For every user and every \<open>baseDays\<close>, on a ledger that can be read and written
  and a clock that is not before the epoch, \<open>grantSubscription\<close> takes
  \<open>totalDays = baseDays + bonusDays\<close> (\<open>0\<close> when the field is absent), resets
  \<open>bonusDays\<close> to \<open>0\<close>, adds \<open>1\<close> to \<open>totalPaidCycles\<close>, and sets \<open>expiresAt\<close> to the
  old value plus \<open>totalDays\<close> days when the old value is present and strictly after
  \<open>now\<close>, and to \<open>now\<close> plus \<open>totalDays\<close> days otherwise. The value returned is the
  \<open>expiresAt\<close> that is stored; the other records and the other fields stay as they
  were, and no message is sent.
\<close>

theorem C1_grant:
  assumes "disk w = Some d" and "writable w" and "0 \<le> now"
    and "u = snd (ensureUser d userId)"
    and "totalDays = baseDays + (case bonusDays u of None \<Rightarrow> 0 | Some b \<Rightarrow> b)"
    and "newExpires =
           (case expiresAt u of
              None \<Rightarrow> now + totalDays * DAY_MS
            | Some t \<Rightarrow> if t > now then t + totalDays * DAY_MS else now + totalDays * DAY_MS)"
  shows "fst (grantSubscription w now userId baseDays) = Inr newExpires
       \<and> map_of (loadDb (snd (grantSubscription w now userId baseDays))) userId
           = Some (u\<lparr>bonusDays := Some 0, expiresAt := Some newExpires,
                     totalPaidCycles := Some (or0 (totalPaidCycles u) + 1)\<rparr>)
       \<and> (\<forall>k. k \<noteq> userId \<longrightarrow>
             map_of (loadDb (snd (grantSubscription w now userId baseDays))) k = map_of d k)
       \<and> calls (snd (grantSubscription w now userId baseDays)) = calls w"
proof -
  have e: "extended (expiresAt u) now (totalDays * DAY_MS) = newExpires"
    using assms(3,6) by (simp add: extended_claim)
  have b: "or0 (bonusDays u) = (case bonusDays u of None \<Rightarrow> 0 | Some b \<Rightarrow> b)"
    by (simp add: or0_def)
  obtain d1 where d1: "ensureUser d userId = (d1, u)"
    using assms(4) by (cases "ensureUser d userId") simp
  have other: "k \<noteq> userId \<Longrightarrow> map_of d1 k = map_of d k" for k
    using d1 by (auto simp: ensureUser_def map_of_update split: option.splits)
  have g: "grantSubscription w now userId baseDays =
        (Inr newExpires,
         w\<lparr>disk := Some (AList.update userId
              (u\<lparr>bonusDays := Some 0, expiresAt := Some newExpires,
                 totalPaidCycles := Some (or0 (totalPaidCycles u) + 1)\<rparr>) d1)\<rparr>)"
    using assms(1,2,5) d1 e b
    by (simp add: grantSubscription_def loadDb_def saveDb_def Let_def or0_def)
  show ?thesis
    by (simp add: g loadDb_def map_of_update other)
qed

theorem C1_grant_witness:
  "disk w_ex = Some [(Some 7, alice), (Some 8, bruno)] \<and> writable w_ex \<and> (0::int) \<le> 1000
   \<and> fst (grantSubscription w_ex 1000 (Some 7) 30) = Inr (5000 + 33 * 86400000)
   \<and> map_of (loadDb (snd (grantSubscription w_ex 1000 (Some 7) 30))) (Some 7)
       = Some (alice\<lparr>bonusDays := Some 0, expiresAt := Some (5000 + 33 * 86400000),
                    totalPaidCycles := Some 2\<rparr>)"
  using C1_grant [of w_ex "[(Some 7, alice), (Some 8, bruno)]" 1000 alice "Some 7" 33 30
      "5000 + 33 * 86400000"]
  by (simp add: ex_defs ensureUser_def DAY_MS_def or0_def)

section \<open>The referral credit\<close>

text \<open>
  C5. When the first-payment handler runs for a referee who has not been counted yet
  and whose \<open>referredBy\<close> names an existing record, the referrer's \<open>referralsCount\<close>
  grows by \<open>1\<close> and five days are put directly on the referrer's \<open>expiresAt\<close>: on top
  of the old value when that is present and strictly after \<open>now\<close>, from \<open>now\<close>
  otherwise. The referrer's \<open>bonusDays\<close> is left as it was.
\<close>

theorem C5_referrer_credit:
  assumes "writable w" and "0 \<le> now"
    and "map_of (loadDb w) userId = Some u" and "\<not> firstPaymentDone u"
    and "referredBy u = Some r" and "r \<noteq> 0"
    and "map_of (loadDb w) (Some r) = Some refUser"
    and "w' = snd (handleReferralOnFirstPayment w now userId)"
  shows "fst (handleReferralOnFirstPayment w now userId) = Inr ()
       \<and> map_option referralsCount (map_of (loadDb w') (Some r))
           = Some (Some (or0 (referralsCount refUser) + 1))
       \<and> map_option expiresAt (map_of (loadDb w') (Some r))
           = Some (Some (case expiresAt refUser of
                           None \<Rightarrow> now + 5 * DAY_MS
                         | Some t \<Rightarrow> if t > now then t + 5 * DAY_MS else now + 5 * DAY_MS))
       \<and> map_option bonusDays (map_of (loadDb w') (Some r)) = Some (bonusDays refUser)"
proof -
  have same: "Some r = userId \<Longrightarrow> u = refUser"
    using assms(3,7) by auto
  show ?thesis
    unfolding assms(8) referral_credit [OF assms(1,3,4,5,6,7)]
    using same
    by (auto simp: loadDb_def map_of_update extended_claim [OF assms(2)] REFERRAL_BONUS_DAYS_def)
qed

theorem C5_referrer_credit_witness:
  "writable w_ex \<and> (0::int) \<le> 1000 \<and> map_of (loadDb w_ex) (Some 8) = Some bruno
   \<and> \<not> firstPaymentDone bruno \<and> referredBy bruno = Some 7
   \<and> map_of (loadDb w_ex) (Some 7) = Some alice
   \<and> fst (handleReferralOnFirstPayment w_ex 1000 (Some 8)) = Inr ()
   \<and> map_option referralsCount
        (map_of (loadDb (snd (handleReferralOnFirstPayment w_ex 1000 (Some 8)))) (Some 7))
       = Some (Some 3)
   \<and> map_option expiresAt
        (map_of (loadDb (snd (handleReferralOnFirstPayment w_ex 1000 (Some 8)))) (Some 7))
       = Some (Some (5000 + 5 * 86400000))
   \<and> map_option bonusDays
        (map_of (loadDb (snd (handleReferralOnFirstPayment w_ex 1000 (Some 8)))) (Some 7))
       = Some (Some 3)"
  using C5_referrer_credit [of w_ex 1000 "Some 8" bruno 7 alice
      "snd (handleReferralOnFirstPayment w_ex 1000 (Some 8))"]
  by (simp add: ex_defs loadDb_def DAY_MS_def or0_def)

lemma referral_marks:
  assumes "writable w"
  shows "fst (handleReferralOnFirstPayment w now userId) = Inr ()
       \<and> firstPaymentDone (snd (ensureUser (loadDb (snd (handleReferralOnFirstPayment w now userId))) userId))"
proof (cases "ensureUser (loadDb w) userId")
  case (Pair d1 u)
  have m: "map_of d1 userId = Some u"
    using Pair map_of_ensureUser [of "loadDb w" userId] by simp
  show ?thesis
  proof (cases "firstPaymentDone u")
    case True
    then show ?thesis
      using Pair by (simp add: handleReferralOnFirstPayment_def)
  next
    case False
    then show ?thesis
      using Pair assms
      by (auto simp: handleReferralOnFirstPayment_def Let_def saveDb_def tg_def loadDb_def
          ensureUser_def map_of_update split: option.splits)
  qed
qed

text \<open>
  C2. The credit is given at most once per referee. Whatever the ledger holds, a
  second run of the first-payment handler after a first one is a no-op: it returns
  without writing or sending anything. With a referee not yet counted whose referrer
  has a record, the two runs together add exactly \<open>1\<close> to the referrer's
  \<open>referralsCount\<close> and extend the referrer's \<open>expiresAt\<close> once, at the time of the
  first run.
\<close>

theorem C2_referral_once:
  assumes "writable w"
    and "w1 = snd (handleReferralOnFirstPayment w t1 userId)"
    and "w2 = snd (handleReferralOnFirstPayment w1 t2 userId)"
  shows "fst (handleReferralOnFirstPayment w t1 userId) = Inr ()
       \<and> handleReferralOnFirstPayment w1 t2 userId = (Inr (), w1)
       \<and> (map_of (loadDb w) userId = Some u \<and> \<not> firstPaymentDone u
            \<and> referredBy u = Some r \<and> r \<noteq> 0 \<and> map_of (loadDb w) (Some r) = Some refUser
          \<longrightarrow> map_option referralsCount (map_of (loadDb w2) (Some r))
                = Some (Some (or0 (referralsCount refUser) + 1))
              \<and> map_option expiresAt (map_of (loadDb w2) (Some r))
                = Some (Some (extended (expiresAt refUser) t1 (REFERRAL_BONUS_DAYS * DAY_MS))))"
proof -
  have first: "fst (handleReferralOnFirstPayment w t1 userId) = Inr ()"
    and marked: "firstPaymentDone (snd (ensureUser (loadDb w1) userId))"
    using referral_marks [OF assms(1), of t1 userId] assms(2) by simp_all
  have second: "handleReferralOnFirstPayment w1 t2 userId = (Inr (), w1)"
    using marked by (rule referral_done)
  then have w2: "w2 = w1"
    using assms(3) by simp
  have "map_option referralsCount (map_of (loadDb w1) (Some r))
          = Some (Some (or0 (referralsCount refUser) + 1))
        \<and> map_option expiresAt (map_of (loadDb w1) (Some r))
          = Some (Some (extended (expiresAt refUser) t1 (REFERRAL_BONUS_DAYS * DAY_MS)))"
    if h: "map_of (loadDb w) userId = Some u" "\<not> firstPaymentDone u"
      "referredBy u = Some r" "r \<noteq> 0" "map_of (loadDb w) (Some r) = Some refUser"
  proof -
    have same: "Some r = userId \<Longrightarrow> u = refUser"
      using h(1,5) by auto
    show ?thesis
      unfolding assms(2) referral_credit [OF assms(1) h]
      using same by (auto simp: loadDb_def map_of_update)
  qed
  with first second w2 show ?thesis
    by blast
qed

theorem C2_referral_once_witness:
  "writable w_ex
   \<and> fst (handleReferralOnFirstPayment w_ex 1000 (Some 8)) = Inr ()
   \<and> handleReferralOnFirstPayment (snd (handleReferralOnFirstPayment w_ex 1000 (Some 8))) 2000 (Some 8)
       = (Inr (), snd (handleReferralOnFirstPayment w_ex 1000 (Some 8)))
   \<and> map_option referralsCount
        (map_of (loadDb (snd (handleReferralOnFirstPayment
            (snd (handleReferralOnFirstPayment w_ex 1000 (Some 8))) 2000 (Some 8)))) (Some 7))
       = Some (Some 3)
   \<and> map_option expiresAt
        (map_of (loadDb (snd (handleReferralOnFirstPayment
            (snd (handleReferralOnFirstPayment w_ex 1000 (Some 8))) 2000 (Some 8)))) (Some 7))
       = Some (Some (5000 + 5 * 86400000))"
proof -
  have h: "writable w_ex"
    by (simp add: w_ex_def)
  have p: "map_of (loadDb w_ex) (Some 8) = Some bruno \<and> \<not> firstPaymentDone bruno
           \<and> referredBy bruno = Some 7 \<and> (7::int) \<noteq> 0
           \<and> map_of (loadDb w_ex) (Some 7) = Some alice"
    by (simp add: w_ex_def loadDb_def bruno_def)
  have v: "or0 (referralsCount alice) + 1 = 3"
    "extended (expiresAt alice) 1000 (REFERRAL_BONUS_DAYS * DAY_MS) = 5000 + 5 * 86400000"
    by (simp_all add: alice_def or0_def extended_def REFERRAL_BONUS_DAYS_def DAY_MS_def)
  show ?thesis
    using C2_referral_once [OF h refl refl, of 1000 "Some 8" 2000 bruno 7 alice] h p
    unfolding v by blast
qed

section \<open>The sweep\<close>

lemma set_object_entries: "set (object_entries d) = set d"
  by (auto simp: object_entries_def)

lemma map_of_clear:
  "map_of (AList.map_entry k (\<lambda>u. u\<lparr>expiresAt := None\<rparr>) d) k'
     = (if k' = k then map_option (\<lambda>u. u\<lparr>expiresAt := None\<rparr>) (map_of d k) else map_of d k')"
  by (simp add: map_of_map_entry split: option.splits)

lemma sweep_loop_frame:
  "sweep_loop chan now xs (d, c, w) = (d', c', w') \<Longrightarrow>
   map_of d' k = map_of d k \<or> map_of d' k = map_option (\<lambda>u. u\<lparr>expiresAt := None\<rparr>) (map_of d k)"
proof (induction xs arbitrary: d c w)
  case Nil
  then show ?case by simp
next
  case (Cons x xs)
  obtain userId data where x: "x = (userId, data)" by (cases x)
  show ?case
  proof (cases "truthy (expiresAt data) \<and> or0 (expiresAt data) \<le> now")
    case False
    then have "sweep_loop chan now xs (d, c, w) = (d', c', w')"
      using Cons.prems x by (auto split: if_splits)
    then show ?thesis by (rule Cons.IH)
  next
    case True
    then obtain w3 where
      "sweep_loop chan now xs (AList.map_entry userId (\<lambda>u. u\<lparr>expiresAt := None\<rparr>) d, True, w3)
         = (d', c', w')"
      using Cons.prems x by (auto simp: Let_def split: prod.splits)
    from Cons.IH [OF this] show ?thesis
      by (cases "map_of d k") (auto simp: map_of_clear split: if_splits)
  qed
qed

lemma sweep_loop_clears:
  "sweep_loop chan now xs (d, c, w) = (d', c', w') \<Longrightarrow> (k, data) \<in> set xs \<Longrightarrow>
   truthy (expiresAt data) \<Longrightarrow> or0 (expiresAt data) \<le> now \<Longrightarrow>
   map_of d' k = map_option (\<lambda>u. u\<lparr>expiresAt := None\<rparr>) (map_of d k)"
proof (induction xs arbitrary: d c w)
  case Nil
  then show ?case by simp
next
  case (Cons x xs)
  obtain userId entry where x: "x = (userId, entry)" by (cases x)
  show ?case
  proof (cases "truthy (expiresAt entry) \<and> or0 (expiresAt entry) \<le> now")
    case False
    then have rest: "sweep_loop chan now xs (d, c, w) = (d', c', w')"
      using Cons.prems(1) x by (auto split: if_splits)
    from False Cons.prems(2,3,4) x have "(k, data) \<in> set xs" by auto
    from Cons.IH [OF rest this Cons.prems(3,4)] show ?thesis .
  next
    case True
    then obtain w3 where rest:
      "sweep_loop chan now xs (AList.map_entry userId (\<lambda>u. u\<lparr>expiresAt := None\<rparr>) d, True, w3)
         = (d', c', w')"
      using Cons.prems(1) x by (auto simp: Let_def split: prod.splits)
    show ?thesis
    proof (cases "(k, data) \<in> set xs")
      case True
      from Cons.IH [OF rest True Cons.prems(3,4)] show ?thesis
        by (cases "map_of d k") (auto simp: map_of_clear split: if_splits)
    next
      case False
      with Cons.prems(2) x have k: "k = userId" by auto
      from sweep_loop_frame [OF rest, of k] show ?thesis
        by (cases "map_of d k") (auto simp: map_of_clear k)
    qed
  qed
qed

lemma sweep_loop_changed:
  "sweep_loop chan now xs (d, c, w) = (d', c', w') \<Longrightarrow> \<not> c' \<Longrightarrow> d' = d"
proof (induction xs arbitrary: d c w)
  case Nil
  then show ?case by simp
next
  case (Cons x xs)
  obtain userId data where x: "x = (userId, data)" by (cases x)
  have flag: "sweep_loop chan now ys (e, True, v) = (d', c', w') \<Longrightarrow> c'" for ys e v
  proof (induction ys arbitrary: e v)
    case Nil
    then show ?case by simp
  next
    case (Cons y ys)
    then show ?case
      by (cases y) (auto simp: Let_def split: if_splits prod.splits)
  qed
  show ?case
  proof (cases "truthy (expiresAt data) \<and> or0 (expiresAt data) \<le> now")
    case False
    then have "sweep_loop chan now xs (d, c, w) = (d', c', w')"
      using Cons.prems(1) x by (auto split: if_splits)
    from Cons.IH [OF this Cons.prems(2)] show ?thesis .
  next
    case True
    then obtain w3 where
      "sweep_loop chan now xs (AList.map_entry userId (\<lambda>u. u\<lparr>expiresAt := None\<rparr>) d, True, w3)
         = (d', c', w')"
      using Cons.prems(1) x by (auto simp: Let_def split: prod.splits)
    from flag [OF this] Cons.prems(2) show ?thesis by simp
  qed
qed

lemma sweep_loop_world:
  "sweep_loop chan now xs (d, c, w) = (d', c', w') \<Longrightarrow>
   disk w' = disk w \<and> writable w' = writable w"
proof (induction xs arbitrary: d c w)
  case Nil
  then show ?case by simp
next
  case (Cons x xs)
  obtain userId data where x: "x = (userId, data)" by (cases x)
  show ?case
  proof (cases "truthy (expiresAt data) \<and> or0 (expiresAt data) \<le> now")
    case False
    then have "sweep_loop chan now xs (d, c, w) = (d', c', w')"
      using Cons.prems x by (auto split: if_splits)
    then show ?thesis by (rule Cons.IH)
  next
    case True
    then obtain w3 where
      "sweep_loop chan now xs (AList.map_entry userId (\<lambda>u. u\<lparr>expiresAt := None\<rparr>) d, True, w3)
         = (d', c', w')" and "disk w3 = disk w \<and> writable w3 = writable w"
      using Cons.prems x by (auto simp: Let_def tg_def split: prod.splits)
    with Cons.IH [OF this(1)] show ?thesis by simp
  qed
qed

lemma sweep_result:
  assumes "CHANNEL_ID cfg = Some chan" and "chan \<noteq> []" and "writable w"
    and "sweep_loop chan now (object_entries (loadDb w)) (loadDb w, False, w) = (d', c', w')"
  shows "fst (checkExpirations cfg w now) = Inr ()
       \<and> map_of (loadDb (snd (checkExpirations cfg w now))) = map_of d'"
proof -
  from sweep_loop_world [OF assms(4)] have w': "disk w' = disk w" "writable w'"
    using assms(3) by simp_all
  show ?thesis
  proof (cases c')
    case True
    then show ?thesis
      using assms w' by (simp add: checkExpirations_def saveDb_def loadDb_def)
  next
    case False
    from sweep_loop_changed [OF assms(4) False] have "d' = loadDb w" .
    with False show ?thesis
      using assms w' by (simp add: checkExpirations_def loadDb_def)
  qed
qed

text \<open>
  C3, as the code has it. With a channel configured and a ledger that can be written,
  the sweep completes, every record whose \<open>expiresAt\<close> is a non-zero time at or before
  \<open>now\<close> has it set to none, and afterwards no record holds a non-zero \<open>expiresAt\<close>
  at or before \<open>now\<close>. (The code reads an \<open>expiresAt\<close> of \<open>0\<close> as absent.) Without a
  channel the sweep returns at once and changes nothing, as the example after the
  theorem shows.
\<close>

theorem C3_sweep_clears_expired:
  assumes "configured (CHANNEL_ID cfg)" and "writable w"
    and "w' = snd (checkExpirations cfg w now)"
  shows "fst (checkExpirations cfg w now) = Inr ()
       \<and> (\<forall>k u e. map_of (loadDb w) k = Some u \<and> expiresAt u = Some e \<and> e \<noteq> 0 \<and> e \<le> now
             \<longrightarrow> map_of (loadDb w') k = Some (u\<lparr>expiresAt := None\<rparr>))
       \<and> (\<forall>k u e. map_of (loadDb w') k = Some u \<and> expiresAt u = Some e \<and> e \<noteq> 0
             \<longrightarrow> now < e)"
proof -
  obtain chan where chan: "CHANNEL_ID cfg = Some chan" "chan \<noteq> []"
    using assms(1) by (auto simp: configured_def split: option.splits)
  obtain d' c' v where loop:
    "sweep_loop chan now (object_entries (loadDb w)) (loadDb w, False, w) = (d', c', v)"
    by (cases "sweep_loop chan now (object_entries (loadDb w)) (loadDb w, False, w)") auto
  from sweep_result [OF chan assms(2) loop]
  have ok: "fst (checkExpirations cfg w now) = Inr ()" and m: "map_of (loadDb w') = map_of d'"
    using assms(3) by simp_all
  have cleared: "map_of d' k = Some (u\<lparr>expiresAt := None\<rparr>)"
    if "map_of (loadDb w) k = Some u" "expiresAt u = Some e" "e \<noteq> 0" "e \<le> now" for k u e
  proof -
    from that(1) have "(k, u) \<in> set (object_entries (loadDb w))"
      by (simp add: set_object_entries map_of_SomeD)
    from sweep_loop_clears [OF loop this] that show ?thesis
      by (simp add: truthy_def or0_def)
  qed
  have fresh: "now < e"
    if "map_of d' k = Some u" "expiresAt u = Some e" "e \<noteq> 0" for k u e
  proof (rule ccontr)
    assume "\<not> now < e"
    then have le: "e \<le> now" by simp
    from sweep_loop_frame [OF loop, of k] that(1,2)
    have "map_of (loadDb w) k = Some u"
      by (cases "map_of (loadDb w) k") auto
    from cleared [OF this that(2,3) le] that(1) have "u = u\<lparr>expiresAt := None\<rparr>"
      by simp
    then have "expiresAt u = expiresAt (u\<lparr>expiresAt := None\<rparr>)"
      by (rule arg_cong)
    with that(2) show False by simp
  qed
  from ok m cleared fresh show ?thesis
    by (simp only:) blast
qed

theorem C3_sweep_clears_expired_witness:
  "configured (CHANNEL_ID cfg_ex) \<and> writable w_ex
   \<and> map_of (loadDb w_ex) (Some 7) = Some alice \<and> expiresAt alice = Some 5000
   \<and> (5000::int) \<le> 6000
   \<and> fst (checkExpirations cfg_ex w_ex 6000) = Inr ()
   \<and> map_of (loadDb (snd (checkExpirations cfg_ex w_ex 6000))) (Some 7)
       = Some (alice\<lparr>expiresAt := None\<rparr>)
   \<and> calls (snd (checkExpirations cfg_ex w_ex 6000))
       = [BanChatMember ''@vip'' (Some 7), UnbanChatMember ''@vip'' (Some 7),
          SendMessage (Some 7) MsgExpired]"
proof -
  have h: "configured (CHANNEL_ID cfg_ex)" "writable w_ex"
    by (simp_all add: cfg_ex_def configured_def w_ex_def)
  have p: "map_of (loadDb w_ex) (Some 7) = Some alice \<and> expiresAt alice = Some 5000
           \<and> (5000::int) \<noteq> 0 \<and> (5000::int) \<le> 6000"
    by (simp add: w_ex_def loadDb_def alice_def)
  have c: "calls (snd (checkExpirations cfg_ex w_ex 6000))
       = [BanChatMember ''@vip'' (Some 7), UnbanChatMember ''@vip'' (Some 7),
          SendMessage (Some 7) MsgExpired]"
    by (simp add: checkExpirations_def ex_defs loadDb_def object_entries_def is_index_def
        or0_def truthy_def tg_def saveDb_def Let_def)
  show ?thesis
    using C3_sweep_clears_expired [OF h refl, of 6000] h p c by blast
qed

theorem C3_counterexample:
  "fst (checkExpirations cfg_link_only w_ex 6000) = Inr ()
   \<and> map_of (loadDb (snd (checkExpirations cfg_link_only w_ex 6000))) (Some 7) = Some alice
   \<and> expiresAt alice = Some 5000 \<and> (5000::int) \<le> 6000"
  by (simp add: checkExpirations_def ex_defs loadDb_def)

section \<open>The invite\<close>

lemma seconds_of_min:
  "min (e div 1000) (n div 1000 + 24 * 60 * 60) = (min (n + 24 * 60 * 60 * 1000) e) div (1000::int)"
proof -
  have shift: "(n + 24 * 60 * 60 * 1000) div 1000 = n div 1000 + 24 * 60 * 60"
    by simp
  show ?thesis
  proof (cases "n + 24 * 60 * 60 * 1000 \<le> e")
    case True
    then have "(n + 24 * 60 * 60 * 1000) div 1000 \<le> e div 1000"
      by (intro zdiv_mono1) simp_all
    with True shift show ?thesis
      by (simp add: min_def)
  next
    case False
    then have "e div 1000 \<le> (n + 24 * 60 * 60 * 1000) div 1000"
      by (intro zdiv_mono1) simp_all
    with False shift show ?thesis
      by (simp add: min_def)
  qed
qed

text \<open>
  C9, as the code has it. The invite is requested for one member and with an
  expiration, in whole seconds, equal to the earlier of \<open>now\<close> plus 24 hours and the
  user's \<open>expiresAt\<close>, rounded down to the second; that invite is returned when the
  request succeeds, and the static invite when it fails. The rounding shows: the
  example after the theorem has \<open>now = 1500\<close> and an invite that ends at second
  \<open>86401\<close>, half a second before \<open>now\<close> plus 24 hours.
\<close>

theorem C9_invite_expiry:
  assumes "CHANNEL_ID cfg = Some chan" and "chan \<noteq> []"
    and "res = createUniqueInviteLink cfg w now userId expires"
    and "cap = (min (now + 24 * 60 * 60 * 1000) expires) div 1000"
  shows "calls (snd res) = calls w @ [CreateChatInviteLink chan cap 1]
       \<and> disk (snd res) = disk w
       \<and> (transport_ok w (length (calls w)) \<longrightarrow> fst res = Issued cap)
       \<and> (\<not> transport_ok w (length (calls w)) \<longrightarrow> fst res = Static (CHANNEL_INVITE_LINK cfg))"
  using assms
  by (simp add: createUniqueInviteLink_def Let_def tg_def seconds_of_min)

theorem C9_invite_expiry_witness:
  "CHANNEL_ID cfg_ex = Some ''@vip'' \<and> ''@vip'' \<noteq> [] \<and> transport_ok w_ex (length (calls w_ex))
   \<and> fst (createUniqueInviteLink cfg_ex w_ex 1500 (Some 7) (1500 + 48 * 60 * 60 * 1000))
       = Issued 86401
   \<and> calls (snd (createUniqueInviteLink cfg_ex w_ex 1500 (Some 7) (1500 + 48 * 60 * 60 * 1000)))
       = [CreateChatInviteLink ''@vip'' 86401 1]"
proof -
  have h: "CHANNEL_ID cfg_ex = Some ''@vip''" "''@vip'' \<noteq> []"
    by (simp_all add: cfg_ex_def)
  have v: "(min (1500 + 24 * 60 * 60 * 1000) (1500 + 48 * 60 * 60 * 1000)) div 1000 = (86401::int)"
    by simp
  have t: "transport_ok w_ex (length (calls w_ex))" "calls w_ex = []"
    by (simp_all add: w_ex_def all_ok_def)
  show ?thesis
    using C9_invite_expiry [OF h refl refl, of w_ex 1500 "Some 7" "1500 + 48 * 60 * 60 * 1000"] h t
    unfolding v by simp
qed

theorem C9_counterexample:
  "fst (createUniqueInviteLink cfg_ex w_ex 1500 (Some 7) (1500 + 48 * 60 * 60 * 1000))
     = Issued 86401
   \<and> (86401::int) * 1000 \<noteq> min (1500 + 24 * 60 * 60 * 1000) (1500 + 48 * 60 * 60 * 1000)"
  by (simp add: createUniqueInviteLink_def ex_defs tg_def Let_def)

section \<open>Failures of the ledger file\<close>

lemma grant_unwritable:
  "\<not> writable w \<Longrightarrow> grantSubscription w now userId baseDays = (Inl IOError, w)"
  by (cases "ensureUser (loadDb w) userId") (simp add: grantSubscription_def Let_def saveDb_def)

lemma referral_unwritable:
  "\<not> writable w \<Longrightarrow> \<not> firstPaymentDone (snd (ensureUser (loadDb w) userId)) \<Longrightarrow>
   handleReferralOnFirstPayment w now userId = (Inl IOError, w)"
  by (cases "ensureUser (loadDb w) userId")
     (simp add: handleReferralOnFirstPayment_def Let_def saveDb_def split: option.splits)

lemma grant_unreadable:
  "disk w = None \<Longrightarrow> writable w \<Longrightarrow>
   grantSubscription w now userId baseDays =
     (Inr (now + baseDays * DAY_MS),
      w\<lparr>disk := Some [(userId, new_user\<lparr>expiresAt := Some (now + baseDays * DAY_MS),
                                         totalPaidCycles := Some 1\<rparr>)]\<rparr>)"
  by (simp add: grantSubscription_def Let_def saveDb_def loadDb_def ensureUser_def new_user_def
      or0_def extended_def)

text \<open>
  C6, as the code has it. A ledger that cannot be written is fatal for the operation:
  the grant and the first-payment handler (when it has something to record) raise and
  leave the file as it was, and an approval then ends with the error alert alone. A
  ledger that cannot be read is not: \<open>loadDb\<close> returns the empty ledger and the
  operation carries on with it, so that a grant succeeds and writes a file that holds
  that one user, as the example after the theorem shows.
\<close>

theorem C6_io_failure:
  "(\<not> writable w \<longrightarrow> grantSubscription w now userId baseDays = (Inl IOError, w))
   \<and> (\<not> writable w \<and> \<not> firstPaymentDone (snd (ensureUser (loadDb w) userId))
        \<longrightarrow> handleReferralOnFirstPayment w now userId = (Inl IOError, w))
   \<and> (\<not> writable w \<and> \<not> strict_neq (Some fromAdminId) (ADMIN_CHAT_ID cfg)
        \<and> fst (parseCallback data) = Some ''approve''
        \<longrightarrow> callback_query cfg w fromAdminId data m t1 t2 t3
              = w\<lparr>calls := calls w @ [AnswerCbQuery ErrorOccurred True]\<rparr>)
   \<and> (disk w = None \<longrightarrow> loadDb w = [])
   \<and> (disk w = None \<and> writable w
        \<longrightarrow> grantSubscription w now userId baseDays =
              (Inr (now + baseDays * DAY_MS),
               w\<lparr>disk := Some [(userId, new_user\<lparr>expiresAt := Some (now + baseDays * DAY_MS),
                                                  totalPaidCycles := Some 1\<rparr>)]\<rparr>))"
proof -
  have "callback_query cfg w fromAdminId data m t1 t2 t3
          = w\<lparr>calls := calls w @ [AnswerCbQuery ErrorOccurred True]\<rparr>"
    if "\<not> writable w" "\<not> strict_neq (Some fromAdminId) (ADMIN_CHAT_ID cfg)"
      "fst (parseCallback data) = Some ''approve''"
    using that
    by (cases "parseCallback data")
       (simp add: callback_query_def decide_def grant_unwritable tg_def)
  then show ?thesis
    by (simp add: grant_unwritable referral_unwritable grant_unreadable loadDb_def)
qed

theorem C6_io_failure_witness:
  "\<not> writable w_readonly
   \<and> grantSubscription w_readonly 1000 (Some 7) 30 = (Inl IOError, w_readonly)
   \<and> disk w_unreadable = None \<and> writable w_unreadable
   \<and> fst (grantSubscription w_unreadable 1000 (Some 7) 30) = Inr (1000 + 30 * 86400000)"
proof -
  have h: "\<not> writable w_readonly" "disk w_unreadable = None" "writable w_unreadable"
    by (simp_all add: w_readonly_def w_unreadable_def)
  show ?thesis
    using C6_io_failure [of w_readonly 1000 "Some 7" 30]
      C6_io_failure [of w_unreadable 1000 "Some 7" 30] h
    by (simp add: DAY_MS_def)
qed

theorem C6_counterexample:
  "disk w_unreadable = None
   \<and> fst (grantSubscription w_unreadable 1000 (Some 7) 30) = Inr (1000 + 30 * 86400000)
   \<and> disk (snd (grantSubscription w_unreadable 1000 (Some 7) 30))
       = Some [(Some 7, new_user\<lparr>expiresAt := Some (1000 + 30 * 86400000),
                                  totalPaidCycles := Some 1\<rparr>)]"
  by (simp add: grantSubscription_def Let_def saveDb_def loadDb_def ensureUser_def new_user_def
      or0_def extended_def w_unreadable_def DAY_MS_def)

section \<open>Decisions by anyone but the administrator\<close>

lemma tg_seq_single:
  "tg_seq [c] w = (if transport_ok w (length (calls w)) then Inr () else Inl TransportError,
                   w\<lparr>calls := calls w @ [c]\<rparr>)"
  by (simp add: tg_def)

lemma denied_step:
  assumes "strict_neq (Some fromAdminId) (ADMIN_CHAT_ID cfg)"
  shows "callback_query cfg w fromAdminId data m t1 t2 t3 =
           w\<lparr>calls := calls w @
                (if transport_ok w (length (calls w)) then [AnswerCbQuery PermissionDenied True]
                 else [AnswerCbQuery PermissionDenied True, AnswerCbQuery ErrorOccurred True])\<rparr>"
  using assms by (simp add: callback_query_def decide_def tg_seq_single tg_def)

text \<open>
  C4. Decision events whose sender is not the configured administrator, however many
  and in whatever state they arrive, leave the ledger file as it was and make no call
  other than answers to the click: the permission-denied alert and, where sending that
  alert itself failed, the generic error alert of the handler's \<open>catch\<close>. When the
  transport works, the calls are exactly one permission-denied alert per event.
\<close>

theorem C4_non_admin_decisions:
  assumes "\<forall>ev \<in> set evs. from_non_admin cfg ev"
  shows "disk (run cfg w evs) = disk w
       \<and> writable (run cfg w evs) = writable w
       \<and> (\<exists>acks. calls (run cfg w evs) = calls w @ acks
                 \<and> set acks \<subseteq> {AnswerCbQuery PermissionDenied True,
                                AnswerCbQuery ErrorOccurred True})
       \<and> ((\<forall>n. transport_ok w n) \<longrightarrow>
            calls (run cfg w evs)
              = calls w @ replicate (length evs) (AnswerCbQuery PermissionDenied True))"
  using assms
proof (induction evs arbitrary: w)
  case Nil
  then show ?case by (simp add: run_def)
next
  case (Cons ev evs)
  from Cons.prems obtain fromAdminId data m t1 t2 t3
    where ev: "ev = Decision fromAdminId data m t1 t2 t3"
      and na: "strict_neq (Some fromAdminId) (ADMIN_CHAT_ID cfg)"
    by (cases ev) auto
  define w1 where "w1 = step cfg w ev"
  have w1: "w1 = w\<lparr>calls := calls w @
                (if transport_ok w (length (calls w)) then [AnswerCbQuery PermissionDenied True]
                 else [AnswerCbQuery PermissionDenied True, AnswerCbQuery ErrorOccurred True])\<rparr>"
    unfolding w1_def ev using denied_step [OF na] by simp
  have r: "run cfg w (ev # evs) = run cfg w1 evs"
    by (simp add: run_def w1_def)
  from Cons.prems have rest: "\<forall>ev \<in> set evs. from_non_admin cfg ev"
    by simp
  note ih = Cons.IH [OF rest, of w1]
  from ih obtain acks where acks: "calls (run cfg w1 evs) = calls w1 @ acks"
    "set acks \<subseteq> {AnswerCbQuery PermissionDenied True, AnswerCbQuery ErrorOccurred True}"
    by blast
  have a: "disk (run cfg w (ev # evs)) = disk w" "writable (run cfg w (ev # evs)) = writable w"
    using ih r w1 by simp_all
  have b: "\<exists>acks. calls (run cfg w (ev # evs)) = calls w @ acks
                 \<and> set acks \<subseteq> {AnswerCbQuery PermissionDenied True,
                                AnswerCbQuery ErrorOccurred True}"
  proof (cases "transport_ok w (length (calls w))")
    case True
    with acks w1 r have "calls (run cfg w (ev # evs))
        = calls w @ (AnswerCbQuery PermissionDenied True # acks)"
      by simp
    with acks(2) show ?thesis
      by (intro exI [of _ "AnswerCbQuery PermissionDenied True # acks"]) simp
  next
    case False
    with acks w1 r have "calls (run cfg w (ev # evs))
        = calls w @ (AnswerCbQuery PermissionDenied True # AnswerCbQuery ErrorOccurred True # acks)"
      by simp
    with acks(2) show ?thesis
      by (intro exI [of _ "AnswerCbQuery PermissionDenied True
                            # AnswerCbQuery ErrorOccurred True # acks"]) simp
  qed
  have c: "calls (run cfg w (ev # evs))
              = calls w @ replicate (length (ev # evs)) (AnswerCbQuery PermissionDenied True)"
    if "\<forall>n. transport_ok w n"
  proof -
    from that w1 have "\<forall>n. transport_ok w1 n" by simp
    with ih have "calls (run cfg w1 evs)
        = calls w1 @ replicate (length evs) (AnswerCbQuery PermissionDenied True)"
      by blast
    with that w1 r show ?thesis by simp
  qed
  from a b c show ?case by blast
qed

theorem C4_non_admin_decisions_witness:
  "from_non_admin cfg_ex (Decision 8 ''approve:8'' Media 1000 1001 1002)
   \<and> from_non_admin cfg_ex (Decision 8 ''reject:7'' Textual 2000 2001 2002)
   \<and> disk (run cfg_ex w_ex [Decision 8 ''approve:8'' Media 1000 1001 1002,
                             Decision 8 ''reject:7'' Textual 2000 2001 2002]) = disk w_ex
   \<and> calls (run cfg_ex w_ex [Decision 8 ''approve:8'' Media 1000 1001 1002,
                              Decision 8 ''reject:7'' Textual 2000 2001 2002])
       = [AnswerCbQuery PermissionDenied True, AnswerCbQuery PermissionDenied True]"
proof -
  have h: "\<forall>ev \<in> set [Decision 8 ''approve:8'' Media 1000 1001 1002,
                       Decision 8 ''reject:7'' Textual 2000 2001 2002]. from_non_admin cfg_ex ev"
    by (simp add: cfg_ex_def strict_neq_def)
  have t: "\<forall>n. transport_ok w_ex n" "calls w_ex = []"
    by (simp_all add: w_ex_def all_ok_def)
  show ?thesis
    using C4_non_admin_decisions [OF h, of w_ex] h t by simp
qed

section \<open>Where records come from\<close>















section \<open>The referral link\<close>















end
